theory Spec2Isabelle
  imports Main "HOL-Library.Sublist"
begin

section \<open>Constants and configuration\<close>

text \<open>
  The constants of \<^verbatim>\<open>main.go\<close>. Durations are counted in seconds
  (\<^verbatim>\<open>time.Second\<close> is the unit). \<^verbatim>\<open>concurrency\<close> is the local
  constant of \<^verbatim>\<open>sendEmails\<close>, the capacity of its semaphore channel.
\<close>

definition emailDelay :: nat where
  "emailDelay = 2"

definition emailsPerHour :: nat where
  "emailsPerHour = 180"

definition hourDuration :: nat where
  "hourDuration = 3600"

definition concurrency :: nat where
  "concurrency = 10"

record SMTPConfig =
  Host :: string
  Port :: int
  User :: string
  Password :: string
  From :: string

record Recipient =
  SenderName :: string
  RecipientName :: string
  RecipientEmail :: string

section \<open>Text helpers of the Go library\<close>

text \<open>
  \<^verbatim>\<open>strings.ReplaceAll(s, old, new)\<close>: the non-overlapping occurrences of
  \<^verbatim>\<open>old\<close> are replaced from left to right in one pass; the inserted text is never
  scanned again. With an empty \<^verbatim>\<open>old\<close> the library inserts \<^verbatim>\<open>new\<close> before every
  character and at the end (a character stands for a rune here).
\<close>

function replaceAll :: "string \<Rightarrow> string \<Rightarrow> string \<Rightarrow> string" where
  "replaceAll s old new =
     (if old = [] then
        (case s of [] \<Rightarrow> new | c # cs \<Rightarrow> new @ c # replaceAll cs old new)
      else if s = [] then []
      else if prefix old s then new @ replaceAll (drop (length old) s) old new
      else hd s # replaceAll (tl s) old new)"
  by pat_completeness auto
termination
  by (relation "measure (\<lambda>(s, old, new). length s)") auto

declare replaceAll.simps [simp del]

text \<open>The decimal rendering of \<^verbatim>\<open>%d\<close>.\<close>

fun string_of_nat :: "nat \<Rightarrow> string" where
  "string_of_nat n =
     (if n < 10 then [char_of (48 + n)]
      else string_of_nat (n div 10) @ [char_of (48 + n mod 10)])"

declare string_of_nat.simps [simp del]

definition string_of_int :: "int \<Rightarrow> string" where
  "string_of_int i = (if i < 0 then CHR ''-'' # string_of_nat (nat (- i)) else string_of_nat (nat i))"

section \<open>Delivery: \<^verbatim>\<open>sendEmail\<close>\<close>

text \<open>
  The calls \<^verbatim>\<open>sendEmail\<close> makes on the SMTP library, with their arguments. What the
  server answers is not the program's: a \<open>network\<close> says, for the attempt number and
  the call, whether the call succeeds.
\<close>

datatype smtp_call =
    Dial string
  | StartTLS string
  | Auth string string string
  | Mail string
  | Rcpt string
  | Data
  | Write string

datatype event =
    Call nat smtp_call
  | Sleep nat
  | Close nat
  | CloseData nat

type_synonym network = "nat \<Rightarrow> smtp_call \<Rightarrow> bool"

text \<open>Lines 324 to 327: the two replacements applied to the subject and to the body.\<close>

definition substitute :: "string \<Rightarrow> string \<Rightarrow> string \<Rightarrow> string" where
  "substitute text recipientName senderName =
     replaceAll (replaceAll text ''{name}'' recipientName) ''{sender}'' senderName"

text \<open>Lines 330 and 333: the bytes handed to the transfer.\<close>

definition message :: "SMTPConfig \<Rightarrow> string \<Rightarrow> string \<Rightarrow> string \<Rightarrow> string \<Rightarrow> string" where
  "message smtpConfig recipientName senderName subject body =
     (let subject' = substitute subject recipientName senderName;
          body' = substitute body recipientName senderName;
          sender = senderName @ '' <'' @ From smtpConfig @ ''>''
      in ''From: '' @ sender @ [CHR 0x0A] @ ''Subject: '' @ subject' @ [CHR 0x0A, CHR 0x0A] @ body')"

definition dial_address :: "SMTPConfig \<Rightarrow> string" where
  "dial_address smtpConfig = Host smtpConfig @ '':'' @ string_of_int (Port smtpConfig)"

text \<open>
  One pass through the body of the retry loop (lines 337 to 392) for attempt \<open>i\<close>. The
  result says whether the pass reached \<^verbatim>\<open>return nil\<close>, which events it produced, and
  which deferred closes it registered. Every failing call is followed by the two second
  sleep and \<^verbatim>\<open>continue\<close>.
\<close>

definition attempt ::
  "SMTPConfig \<Rightarrow> network \<Rightarrow> string \<Rightarrow> string \<Rightarrow> nat \<Rightarrow> bool \<times> event list \<times> event list" where
  "attempt smtpConfig net recipientEmail msg i =
     (let dial = Dial (dial_address smtpConfig);
          tls = StartTLS (Host smtpConfig);
          auth = Auth (User smtpConfig) (Password smtpConfig) (Host smtpConfig);
          mail = Mail (From smtpConfig);
          rcpt = Rcpt recipientEmail
      in
      if \<not> net i dial then (False, [Call i dial, Sleep 2], [])
      else if Port smtpConfig = 587 \<and> \<not> net i tls then
        (False, [Call i dial, Call i tls, Sleep 2], [Close i])
      else
        let ev = Call i dial # (if Port smtpConfig = 587 then [Call i tls] else []) in
        if \<not> net i auth then (False, ev @ [Call i auth, Sleep 2], [Close i])
        else if \<not> net i mail then (False, ev @ [Call i auth, Call i mail, Sleep 2], [Close i])
        else if \<not> net i rcpt then
          (False, ev @ [Call i auth, Call i mail, Call i rcpt, Sleep 2], [Close i])
        else if \<not> net i Data then
          (False, ev @ [Call i auth, Call i mail, Call i rcpt, Call i Data, Sleep 2], [Close i])
        else if \<not> net i (Write msg) then
          (False, ev @ [Call i auth, Call i mail, Call i rcpt, Call i Data, Call i (Write msg), Sleep 2],
           [Close i, CloseData i])
        else
          (True, ev @ [Call i auth, Call i mail, Call i rcpt, Call i Data, Call i (Write msg)],
           [Close i, CloseData i]))"

text \<open>
  The loop \<^verbatim>\<open>for i := 0; i < 3; i++\<close>. \<open>tr\<close> holds the events so far, \<open>dfs\<close> the
  deferred closes in the order they were registered; they run last in, first out when the
  function returns. The error is the text of \<^verbatim>\<open>fmt.Errorf\<close> on line 395.
\<close>

definition exhausted :: "string \<Rightarrow> string" where
  "exhausted recipientEmail =
     ''failed to send email to '' @ recipientEmail @ '' after multiple attempts''"

function retry ::
  "SMTPConfig \<Rightarrow> network \<Rightarrow> string \<Rightarrow> string \<Rightarrow> nat \<Rightarrow> event list \<Rightarrow> event list
     \<Rightarrow> (string + unit) \<times> event list" where
  "retry smtpConfig net recipientEmail msg i tr dfs =
     (if i < 3 then
        (case attempt smtpConfig net recipientEmail msg i of
           (True, ev, d) \<Rightarrow> (Inr (), tr @ ev @ rev (dfs @ d))
         | (False, ev, d) \<Rightarrow> retry smtpConfig net recipientEmail msg (i + 1) (tr @ ev) (dfs @ d))
      else (Inl (exhausted recipientEmail), tr @ rev dfs))"
  by pat_completeness auto
termination
  by (relation "measure (\<lambda>(smtpConfig, net, recipientEmail, msg, i, tr, dfs). 3 - i)") auto

declare retry.simps [simp del]

definition sendEmail ::
  "SMTPConfig \<Rightarrow> string \<Rightarrow> string \<Rightarrow> string \<Rightarrow> string \<Rightarrow> string \<Rightarrow> network
     \<Rightarrow> (string + unit) \<times> event list" where
  "sendEmail smtpConfig recipientEmail recipientName senderName subject body net =
     retry smtpConfig net recipientEmail
       (message smtpConfig recipientName senderName subject body) 0 [] []"

section \<open>The job store\<close>

text \<open>
  The table \<^verbatim>\<open>email_queue\<close> of lines 69 to 79. Ids come from
  \<^verbatim>\<open>AUTOINCREMENT\<close>: \<open>seq\<close> is the largest id ever handed out, which
  \<^verbatim>\<open>DELETE\<close> does not reset. The status is a text column whose declared default is
  \<^verbatim>\<open>'pending'\<close>.
\<close>

record row =
  row_id :: nat
  sender_name :: string
  recipient_name :: string
  recipient_email :: string
  subject :: string
  body :: string
  status :: string

record database =
  rows :: "row list"
  seq :: nat

definition default_status :: string where
  "default_status = ''pending''"

text \<open>
  The statements the program sends to the database. The database can refuse any of them:
  an \<open>env\<close> says which calls fail (a failing statement changes nothing) and how the
  network behaves for each job.
\<close>

datatype db_call =
    Exec_delete
  | Exec_insert Recipient
  | Exec_update string nat
  | Query_pending
  | Query_count
  | Scan nat

record env =
  db_fails :: "db_call \<Rightarrow> bool"
  smtp :: "nat \<Rightarrow> network"

text \<open>
  \<^verbatim>\<open>INSERT INTO email_queue (sender_name, recipient_name, recipient_email, subject, body)\<close>:
  the status column takes its default.
\<close>

definition insert_row :: "Recipient \<Rightarrow> string \<Rightarrow> string \<Rightarrow> database \<Rightarrow> database" where
  "insert_row recipient subj bdy d =
     \<lparr>rows = rows d @
        [\<lparr>row_id = seq d + 1, sender_name = SenderName recipient,
          recipient_name = RecipientName recipient, recipient_email = RecipientEmail recipient,
          subject = subj, body = bdy, status = default_status\<rparr>],
      seq = seq d + 1\<rparr>"

text \<open>\<^verbatim>\<open>UPDATE email_queue SET status = ? WHERE id = ?\<close>\<close>

definition update_status :: "string \<Rightarrow> nat \<Rightarrow> database \<Rightarrow> database" where
  "update_status v i d =
     d\<lparr>rows := map (\<lambda>r. if row_id r = i then r\<lparr>status := v\<rparr> else r) (rows d)\<rparr>"

text \<open>\<^verbatim>\<open>DELETE FROM email_queue\<close>\<close>

definition delete_all :: "database \<Rightarrow> database" where
  "delete_all d = d\<lparr>rows := []\<rparr>"

text \<open>\<^verbatim>\<open>SELECT ... FROM email_queue WHERE status = 'pending'\<close>, in insertion order.\<close>

definition pending_rows :: "database \<Rightarrow> row list" where
  "pending_rows d = filter (\<lambda>r. status r = ''pending'') (rows d)"

section \<open>The process state\<close>

text \<open>
  The package level variables of lines 45 to 58 that the dispatch code reads or writes.
  The progress bar holds a quotient of two integers (the source divides them as
  \<^verbatim>\<open>float64\<close>); the result label holds one of the texts the program sets.
  \<open>effects\<close> is not a variable of the program: it records, oldest first, what the
  program did to the outside (database calls, workers started, SMTP events, pauses).
\<close>

datatype label =
    Blank
  | Queued
  | Fetch_failed
  | Count_failed
  | No_pending
  | Progress "int \<times> int" int int
  | Job_completed int int

datatype effect =
    Db db_call
  | Go nat
  | Net nat event
  | Pause nat

record globals =
  smtpConfig :: SMTPConfig
  recipients :: "Recipient list"
  emailSubject :: string
  emailBody :: string
  db :: database
  progressBar :: "int \<times> int"
  resultLabel :: label
  successCount :: int
  failureCount :: int
  totalEmails :: int
  effects :: "effect list"

text \<open>
  \<^verbatim>\<open>db.Exec\<close>: the call is recorded, and applied unless the database refuses it.
\<close>

definition db_exec :: "env \<Rightarrow> db_call \<Rightarrow> (database \<Rightarrow> database) \<Rightarrow> globals \<Rightarrow> globals" where
  "db_exec e c f st =
     st\<lparr>db := (if db_fails e c then db st else f (db st)), effects := effects st @ [Db c]\<rparr>"

text \<open>
  The start of \<^verbatim>\<open>main\<close> (lines 60 to 88) on the database file it finds: the table
  is emptied, and the process stops (\<^verbatim>\<open>log.Fatal\<close>) when that fails. All counters
  have Go's zero value.
\<close>

definition startup :: "env \<Rightarrow> SMTPConfig \<Rightarrow> database \<Rightarrow> globals option" where
  "startup e cfg d =
     (if db_fails e Exec_delete then None
      else Some \<lparr>smtpConfig = cfg, recipients = [], emailSubject = [], emailBody = [],
                 db = delete_all d, progressBar = (0, 1), resultLabel = Blank,
                 successCount = 0, failureCount = 0, totalEmails = 0,
                 effects = [Db Exec_delete]\<rparr>)"

section \<open>Queueing: \<^verbatim>\<open>queueEmails\<close>\<close>

fun queue_loop :: "env \<Rightarrow> Recipient list \<Rightarrow> globals \<Rightarrow> globals" where
  "queue_loop e [] st = st"
| "queue_loop e (recipient # rest) st =
     queue_loop e rest
       (db_exec e (Exec_insert recipient) (insert_row recipient (emailSubject st) (emailBody st)) st)"

definition queueEmails :: "env \<Rightarrow> globals \<Rightarrow> globals" where
  "queueEmails e st = (queue_loop e (recipients st) st)\<lparr>resultLabel := Queued\<rparr>"

section \<open>Dispatch: \<^verbatim>\<open>sendEmails\<close>, one worker at a time\<close>

text \<open>
  The body of the listener goroutine (lines 260 to 264), run for one progress update.
\<close>

definition listener :: "globals \<Rightarrow> globals" where
  "listener st =
     (let progress = (successCount st + failureCount st, totalEmails st)
      in st\<lparr>progressBar := progress,
            resultLabel := Progress progress (successCount st) (failureCount st)\<rparr>)"

text \<open>
  The body of the worker goroutine (lines 283 to 305) for one scanned row, run from its
  first statement to its last without interruption: the delivery, the counter, the status
  update, the progress update and the pause.
\<close>

definition worker :: "env \<Rightarrow> row \<Rightarrow> globals \<Rightarrow> globals" where
  "worker e r st =
     (let (err, evs) = sendEmail (smtpConfig st) (recipient_email r) (recipient_name r)
                         (sender_name r) (subject r) (body r) (smtp e (row_id r));
          st1 = st\<lparr>effects := effects st @ map (Net (row_id r)) evs\<rparr>;
          st2 = (case err of
                   Inl msg \<Rightarrow> st1\<lparr>failureCount := failureCount st1 + 1\<rparr>
                 | Inr u \<Rightarrow> st1\<lparr>successCount := successCount st1 + 1\<rparr>);
          st3 = db_exec e (Exec_update ''sent'' (row_id r)) (update_status ''sent'' (row_id r)) st2;
          st4 = listener st3
      in st4\<lparr>effects := effects st4 @ [Pause emailDelay]\<rparr>)"

text \<open>
  The loop over the fetched rows (lines 271 to 306): a row whose scan fails is skipped,
  every other row gets a worker.
\<close>

fun dispatch :: "env \<Rightarrow> row list \<Rightarrow> globals \<Rightarrow> globals" where
  "dispatch e [] st = st"
| "dispatch e (r # rs) st =
     (if db_fails e (Scan (row_id r))
      then dispatch e rs (st\<lparr>effects := effects st @ [Db (Scan (row_id r))]\<rparr>)
      else dispatch e rs
             (worker e r (st\<lparr>effects := effects st @ [Db (Scan (row_id r)), Go (row_id r)]\<rparr>)))"

definition sendEmails :: "env \<Rightarrow> globals \<Rightarrow> globals" where
  "sendEmails e st =
     (let st0 = st\<lparr>effects := effects st @ [Db Query_pending]\<rparr> in
      if db_fails e Query_pending then st0\<lparr>resultLabel := Fetch_failed\<rparr>
      else
        let fetched = pending_rows (db st0);
            st1 = st0\<lparr>effects := effects st0 @ [Db Query_count]\<rparr>
        in
        if db_fails e Query_count then st1\<lparr>resultLabel := Count_failed\<rparr>
        else
          let st2 = st1\<lparr>totalEmails := int (length fetched)\<rparr> in
          if totalEmails st2 = 0 then st2\<lparr>resultLabel := No_pending\<rparr>
          else
            let st3 = dispatch e fetched st2;
                st4 = db_exec e Exec_delete delete_all st3;
                st5 = st4\<lparr>progressBar := (1, 1)\<rparr>
            in st5\<lparr>resultLabel := Job_completed (successCount st5) (failureCount st5)\<rparr>)"

section \<open>Dispatch: the goroutines of \<^verbatim>\<open>sendEmails\<close>, interleaved\<close>

text \<open>
  The same loop with its goroutines kept apart, as far as the slots and the two counters
  go. The dispatch loop is at one of four places: before \<^verbatim>\<open>rows.Next\<close>, blocked
  or about to send on \<^verbatim>\<open>sem\<close> for a scanned job (after \<^verbatim>\<open>wg.Add(1)\<close>), in
  \<^verbatim>\<open>wg.Wait\<close>, or past it. A worker goes through the statements of its body in
  order; \<^verbatim>\<open>successCount++\<close> and \<^verbatim>\<open>failureCount++\<close> are a read of the variable
  followed by a write of the value read plus one, as for any unsynchronised integer in Go.
  The deferred calls run in reverse order: the receive from \<^verbatim>\<open>sem\<close>, then
  \<^verbatim>\<open>wg.Done\<close>.
\<close>

datatype loop_pc = At_next | At_acquire nat | At_wait | Returned

datatype phase =
    Sending
  | Counting bool
  | Storing bool int
  | Updating
  | Notifying
  | Sleeping
  | Releasing
  | Finishing
  | Gone

record pool =
  todo :: "nat list"
  pc :: loop_pc
  sem :: nat
  wg :: nat
  workers :: "(nat \<times> phase) list"
  successCell :: int
  failureCell :: int

datatype action = Dispatcher | Worker nat

definition start :: "nat list \<Rightarrow> int \<Rightarrow> int \<Rightarrow> pool" where
  "start ids s f =
     \<lparr>todo = ids, pc = At_next, sem = 0, wg = 0, workers = [], successCell = s, failureCell = f\<rparr>"

text \<open>
  One step of the dispatch loop. A send on the full channel and a wait on a non-zero
  group do not happen: the step is \<open>None\<close>.
\<close>

definition dispatcher_step :: "pool \<Rightarrow> pool option" where
  "dispatcher_step p =
     (case pc p of
        At_next \<Rightarrow>
          (case todo p of
             [] \<Rightarrow> Some (p\<lparr>pc := At_wait\<rparr>)
           | j # js \<Rightarrow> Some (p\<lparr>todo := js, wg := wg p + 1, pc := At_acquire j\<rparr>))
      | At_acquire j \<Rightarrow>
          (if sem p < concurrency
           then Some (p\<lparr>sem := sem p + 1, workers := workers p @ [(j, Sending)], pc := At_next\<rparr>)
           else None)
      | At_wait \<Rightarrow> (if wg p = 0 then Some (p\<lparr>pc := Returned\<rparr>) else None)
      | Returned \<Rightarrow> None)"

text \<open>
  One step of the worker launched \<open>k\<close>-th (from 0). \<open>delivered j\<close> says whether
  \<^verbatim>\<open>sendEmail\<close> returns \<^verbatim>\<open>nil\<close> for job \<open>j\<close>.
\<close>

definition worker_step :: "(nat \<Rightarrow> bool) \<Rightarrow> nat \<Rightarrow> pool \<Rightarrow> pool option" where
  "worker_step delivered k p =
     (if k < length (workers p) then
        (case workers p ! k of
           (j, Sending) \<Rightarrow> Some (p\<lparr>workers := (workers p)[k := (j, Counting (delivered j))]\<rparr>)
         | (j, Counting ok) \<Rightarrow>
             Some (p\<lparr>workers := (workers p)[k := (j, Storing ok (if ok then successCell p else failureCell p))]\<rparr>)
         | (j, Storing ok v) \<Rightarrow>
             Some (if ok then p\<lparr>workers := (workers p)[k := (j, Updating)], successCell := v + 1\<rparr>
                   else p\<lparr>workers := (workers p)[k := (j, Updating)], failureCell := v + 1\<rparr>)
         | (j, Updating) \<Rightarrow> Some (p\<lparr>workers := (workers p)[k := (j, Notifying)]\<rparr>)
         | (j, Notifying) \<Rightarrow> Some (p\<lparr>workers := (workers p)[k := (j, Sleeping)]\<rparr>)
         | (j, Sleeping) \<Rightarrow> Some (p\<lparr>workers := (workers p)[k := (j, Releasing)]\<rparr>)
         | (j, Releasing) \<Rightarrow>
             Some (p\<lparr>workers := (workers p)[k := (j, Finishing)], sem := sem p - 1\<rparr>)
         | (j, Finishing) \<Rightarrow>
             Some (p\<lparr>workers := (workers p)[k := (j, Gone)], wg := wg p - 1\<rparr>)
         | (j, Gone) \<Rightarrow> None)
      else None)"

definition exec1 :: "(nat \<Rightarrow> bool) \<Rightarrow> action \<Rightarrow> pool \<Rightarrow> pool option" where
  "exec1 delivered a p =
     (case a of Dispatcher \<Rightarrow> dispatcher_step p | Worker k \<Rightarrow> worker_step delivered k p)"

text \<open>A schedule is the order in which the goroutines take their steps.\<close>

fun run :: "(nat \<Rightarrow> bool) \<Rightarrow> action list \<Rightarrow> pool \<Rightarrow> pool option" where
  "run delivered [] p = Some p"
| "run delivered (a # as) p =
     (case exec1 delivered a p of None \<Rightarrow> None | Some p' \<Rightarrow> run delivered as p')"

definition in_flight :: "pool \<Rightarrow> nat" where
  "in_flight p = length (filter (\<lambda>w. snd w = Sending) (workers p))"

text \<open>The workers that hold a slot: those that have not yet received from \<^verbatim>\<open>sem\<close>.\<close>

definition holding :: "nat \<times> phase \<Rightarrow> bool" where
  "holding w = (snd w \<noteq> Finishing \<and> snd w \<noteq> Gone)"

section \<open>Observations on a delivery\<close>

text \<open>
  What pass \<open>i\<close> of the retry loop does, taken apart: whether it reaches
  \<^verbatim>\<open>return nil\<close>, its events, its deferred closes. \<open>made\<close> is the number of passes
  the loop runs: it stops after the first pass that succeeds, and after the third at the
  latest.
\<close>

definition ok_at :: "SMTPConfig \<Rightarrow> network \<Rightarrow> string \<Rightarrow> string \<Rightarrow> nat \<Rightarrow> bool" where
  "ok_at c n re msg i = fst (attempt c n re msg i)"

definition events_at :: "SMTPConfig \<Rightarrow> network \<Rightarrow> string \<Rightarrow> string \<Rightarrow> nat \<Rightarrow> event list" where
  "events_at c n re msg i = fst (snd (attempt c n re msg i))"

definition defers_at :: "SMTPConfig \<Rightarrow> network \<Rightarrow> string \<Rightarrow> string \<Rightarrow> nat \<Rightarrow> event list" where
  "defers_at c n re msg i = snd (snd (attempt c n re msg i))"

definition made :: "SMTPConfig \<Rightarrow> network \<Rightarrow> string \<Rightarrow> string \<Rightarrow> nat" where
  "made c n re msg = (if ok_at c n re msg 0 then 1 else if ok_at c n re msg 1 then 2 else 3)"

fun is_dial :: "event \<Rightarrow> bool" where
  "is_dial (Call i (Dial a)) = True"
| "is_dial e = False"


fun is_close :: "event \<Rightarrow> bool" where
  "is_close (Close i) = True"
| "is_close (CloseData i) = True"
| "is_close e = False"

text \<open>
  Every pass opens with \<^verbatim>\<open>smtp.Dial\<close>, so the attempts of a delivery are the dials of
  its trace; its backoffs are the sleeps.
\<close>

definition attempts :: "event list \<Rightarrow> nat" where
  "attempts tr = length (filter is_dial tr)"


text \<open>Sample inputs: a server that refuses everything on the first two attempts.\<close>

definition flaky :: network where
  "flaky i call = (2 \<le> i)"

definition cfg0 :: SMTPConfig where
  "cfg0 = \<lparr>Host = ''mail.example.org'', Port = 587, User = ''u'', Password = ''p'',
            From = ''alice@example.org''\<rparr>"

text \<open>
  The calls that carry the credentials, the envelope and the message, as opposed to the
  two that set the connection up; and a server that refuses every \<^verbatim>\<open>StartTLS\<close> and
  accepts everything else.
\<close>

fun is_exchange :: "smtp_call \<Rightarrow> bool" where
  "is_exchange (Dial a) = False"
| "is_exchange (StartTLS h) = False"
| "is_exchange x = True"

definition tls_refused :: network where
  "tls_refused i call = (case call of StartTLS h \<Rightarrow> False | _ \<Rightarrow> True)"


section \<open>The substitution as the specification words it\<close>

text \<open>
  One pass over the template: each \<^verbatim>\<open>{name}\<close> token gives the recipient display
  name, each \<^verbatim>\<open>{sender}\<close> token gives the sender display name, every other
  character is copied. What has been inserted is not looked at again. The source makes
  two passes instead (\<open>substitute\<close>); this definition is what the two are compared with.
\<close>

function substitute_spec :: "string \<Rightarrow> string \<Rightarrow> string \<Rightarrow> string" where
  "substitute_spec text recipientName senderName =
     (if text = [] then []
      else if prefix ''{name}'' text
        then recipientName @ substitute_spec (drop 6 text) recipientName senderName
      else if prefix ''{sender}'' text
        then senderName @ substitute_spec (drop 8 text) recipientName senderName
      else hd text # substitute_spec (tl text) recipientName senderName)"
  by pat_completeness auto
termination
  by (relation "measure (\<lambda>(text, recipientName, senderName). length text)") auto

declare substitute_spec.simps [simp del]

text \<open>
  No \<^verbatim>\<open>{sender}\<close> token, whole or cut off by the end of the text, starts inside
  the text.
\<close>

fun sender_free :: "string \<Rightarrow> bool" where
  "sender_free [] = True"
| "sender_free (c # cs) =
     (\<not> prefix (c # cs) ''{sender}'' \<and> \<not> prefix ''{sender}'' (c # cs) \<and> sender_free cs)"

text \<open>
  The template nowhere opens a \<^verbatim>\<open>{sender}\<close> token and interrupts it with a
  \<^verbatim>\<open>{name}\<close> token: no brace is followed by a beginning of \<^verbatim>\<open>sender\<close> and
  then by \<^verbatim>\<open>{name}\<close>.
\<close>

fun tokens_intact :: "string \<Rightarrow> bool" where
  "tokens_intact [] = True"
| "tokens_intact (c # cs) =
     ((c = CHR ''{'' \<longrightarrow> \<not> list_ex (\<lambda>u. prefix (u @ ''{name}'') cs) (prefixes ''sender''))
      \<and> tokens_intact cs)"

section \<open>Observations on a dispatch run\<close>

text \<open>
  Whether the delivery of a row returns \<^verbatim>\<open>nil\<close> under a configuration, and the
  events it leaves in the record of effects.
\<close>

definition delivers :: "env \<Rightarrow> SMTPConfig \<Rightarrow> row \<Rightarrow> bool" where
  "delivers e cfg r =
     (fst (sendEmail cfg (recipient_email r) (recipient_name r) (sender_name r) (subject r) (body r)
             (smtp e (row_id r))) = Inr ())"

definition delivery_events :: "env \<Rightarrow> SMTPConfig \<Rightarrow> row \<Rightarrow> effect list" where
  "delivery_events e cfg r =
     map (Net (row_id r))
       (snd (sendEmail cfg (recipient_email r) (recipient_name r) (sender_name r) (subject r) (body r)
               (smtp e (row_id r))))"

text \<open>
  The fetched rows that get a worker, and how many of their deliveries succeed and fail.
\<close>

definition scanned :: "env \<Rightarrow> row list \<Rightarrow> row list" where
  "scanned e rs = filter (\<lambda>r. \<not> db_fails e (Scan (row_id r))) rs"

definition sent_among :: "env \<Rightarrow> SMTPConfig \<Rightarrow> row list \<Rightarrow> int" where
  "sent_among e cfg rs = int (length (filter (delivers e cfg) (scanned e rs)))"

definition failed_among :: "env \<Rightarrow> SMTPConfig \<Rightarrow> row list \<Rightarrow> int" where
  "failed_among e cfg rs = int (length (filter (\<lambda>r. \<not> delivers e cfg r) (scanned e rs)))"

text \<open>
  A run gets past its early returns when both queries succeed and at least one row is
  pending; \<open>loop_start\<close> is the state in which the loop over the rows then begins.
\<close>

definition completes :: "env \<Rightarrow> globals \<Rightarrow> bool" where
  "completes e st =
     (\<not> db_fails e Query_pending \<and> \<not> db_fails e Query_count \<and> pending_rows (db st) \<noteq> [])"

definition loop_start :: "globals \<Rightarrow> globals" where
  "loop_start st =
     st\<lparr>effects := effects st @ [Db Query_pending, Db Query_count],
        totalEmails := int (length (pending_rows (db st)))\<rparr>"

text \<open>
  Sample inputs: a database that never fails, with a network that accepts everything
  (\<open>calm\<close>) or refuses everything (\<open>dead\<close>); a process started on an empty database
  file, with one recipient and a template loaded; the state after that recipient has been
  queued and sent; the row that queueing creates under id \<open>i\<close>.
\<close>

definition calm :: env where
  "calm = \<lparr>db_fails = (\<lambda>c. False), smtp = (\<lambda>j i call. True)\<rparr>"

definition dead :: env where
  "dead = \<lparr>db_fails = (\<lambda>c. False), smtp = (\<lambda>j i call. False)\<rparr>"

definition bob :: Recipient where
  "bob = \<lparr>SenderName = ''Alice'', RecipientName = ''Bob'', RecipientEmail = ''bob@example.org''\<rparr>"

definition loaded :: globals where
  "loaded =
     (the (startup calm cfg0 \<lparr>rows = [], seq = 0\<rparr>))
       \<lparr>recipients := [bob], emailSubject := ''Hi {name}'', emailBody := ''Regards, {sender}''\<rparr>"

definition first_run :: globals where
  "first_run = sendEmails calm (queueEmails calm loaded)"

definition job :: "nat \<Rightarrow> row" where
  "job i = \<lparr>row_id = i, sender_name = ''Alice'', recipient_name = ''Bob'',
            recipient_email = ''bob@example.org'', subject = ''Hi {name}'',
            body = ''Regards, {sender}'', status = ''pending''\<rparr>"

text \<open>
  How the status column may change. A row either stays as it is or goes from
  \<^verbatim>\<open>'pending'\<close> to \<^verbatim>\<open>'sent'\<close> with nothing else changed. \<open>marks\<close>: the
  table keeps its rows, each changed in that way at most. \<open>grows\<close>: the table keeps
  its rows unchanged and gets new ones, all pending. \<open>valid_statuses\<close>: no status
  other than the two occurs.
\<close>

definition row_step :: "row \<Rightarrow> row \<Rightarrow> bool" where
  "row_step r r' = (r' = r \<or> (status r = ''pending'' \<and> r' = r\<lparr>status := ''sent''\<rparr>))"

definition marks :: "database \<Rightarrow> database \<Rightarrow> bool" where
  "marks d d' = list_all2 row_step (rows d) (rows d')"

definition grows :: "database \<Rightarrow> database \<Rightarrow> bool" where
  "grows d d' = (\<exists>new. rows d' = rows d @ new \<and> (\<forall>r\<in>set new. status r = ''pending''))"

definition valid_statuses :: "database \<Rightarrow> bool" where
  "valid_statuses d = (\<forall>r\<in>set (rows d). status r = ''pending'' \<or> status r = ''sent'')"

section \<open>Observations on the interleaved run\<close>

text \<open>
  What holds of the slots at every moment: the channel \<^verbatim>\<open>sem\<close> holds one token for
  each worker that has not yet run its deferred receive, and never more than its capacity.
\<close>

definition pool_inv :: "pool \<Rightarrow> bool" where
  "pool_inv p = (length (filter holding (workers p)) = sem p \<and> sem p \<le> concurrency)"

text \<open>
  Sample inputs: every delivery succeeds; eleven jobs and the schedule in which the
  dispatch loop alone takes twenty steps; two jobs and a schedule in which both workers
  read the success counter before either writes it.
\<close>

definition all_delivered :: "nat \<Rightarrow> bool" where
  "all_delivered j = True"

definition fill_schedule :: "action list" where
  "fill_schedule = replicate 20 Dispatcher"

definition eleven :: "nat list" where
  "eleven = [1, 2, 3, 4, 5, 6, 7, 8, 9, 10, 11]"

definition racing_schedule :: "action list" where
  "racing_schedule =
     [Dispatcher, Dispatcher, Dispatcher, Dispatcher,
      Worker 0, Worker 1, Worker 0, Worker 1, Worker 0, Worker 1,
      Worker 0, Worker 0, Worker 0, Worker 0, Worker 0,
      Worker 1, Worker 1, Worker 1, Worker 1, Worker 1,
      Dispatcher, Dispatcher]"

section \<open>Properties of the delivery client\<close>

lemma attempt_split: "attempt c n re msg i = (ok_at c n re msg i, events_at c n re msg i, defers_at c n re msg i)"
  by (simp add: ok_at_def events_at_def defers_at_def)

lemma retry_step:
  "i < 3 \<Longrightarrow> retry c n re msg i tr dfs =
     (if ok_at c n re msg i then (Inr (), tr @ events_at c n re msg i @ rev (dfs @ defers_at c n re msg i))
      else retry c n re msg (Suc i) (tr @ events_at c n re msg i) (dfs @ defers_at c n re msg i))"
  by (subst retry.simps) (simp add: attempt_split)

lemma retry_stop: "\<not> i < 3 \<Longrightarrow> retry c n re msg i tr dfs = (Inl (exhausted re), tr @ rev dfs)"
  by (subst retry.simps) simp

lemma upt_made:
  "[0..<made c n re msg] =
     (if ok_at c n re msg 0 then [0] else if ok_at c n re msg (Suc 0) then [0, Suc 0] else [0, Suc 0, Suc (Suc 0)])"
  by (simp add: made_def numeral_2_eq_2 numeral_3_eq_3 upt_conv_Cons)

lemma retry_unfold:
  "retry c n re msg 0 [] [] =
     (if ok_at c n re msg 0 \<or> ok_at c n re msg 1 \<or> ok_at c n re msg 2 then Inr () else Inl (exhausted re),
      concat (map (events_at c n re msg) [0..<made c n re msg])
        @ rev (concat (map (defers_at c n re msg) [0..<made c n re msg])))"
  by (simp add: retry_step retry_stop upt_made numeral_2_eq_2 numeral_3_eq_3)

lemma events_dials: "filter is_dial (events_at c n re msg i) = [Call i (Dial (dial_address c))]"
  by (simp add: events_at_def attempt_def Let_def)



lemma defers_close: "e \<in> set (defers_at c n re msg i) \<Longrightarrow> is_close e"
  by (auto simp add: defers_at_def attempt_def Let_def split: if_splits)

lemma defers_not_dial: "filter is_dial (defers_at c n re msg i) = []"
  by (simp add: defers_at_def attempt_def Let_def)


lemma sendEmail_unfold:
  "sendEmail c re rn sn subj bdy net =
     (let msg = message c rn sn subj bdy; k = made c net re msg in
      (if ok_at c net re msg 0 \<or> ok_at c net re msg 1 \<or> ok_at c net re msg 2
       then Inr () else Inl (exhausted re),
       concat (map (events_at c net re msg) [0..<k]) @ rev (concat (map (defers_at c net re msg) [0..<k]))))"
  by (simp add: sendEmail_def retry_unfold Let_def)

lemma attempts_made:
  "attempts (concat (map (events_at c net re msg) [0..<made c net re msg])
       @ rev (concat (map (defers_at c net re msg) [0..<made c net re msg]))) = made c net re msg"
  unfolding attempts_def upt_made
  by (simp add: events_dials defers_not_dial made_def rev_filter [symmetric])




lemma events_calls:
  "Call j x \<in> set (events_at c n re msg i) \<Longrightarrow> j = i"
  by (auto simp add: events_at_def attempt_def Let_def split: if_splits)

lemma events_tls:
  "Call i (StartTLS h) \<in> set (events_at c n re msg i)
     \<longleftrightarrow> h = Host c \<and> Port c = 587 \<and> n i (Dial (dial_address c))"
  by (auto simp add: events_at_def attempt_def Let_def split: if_splits)

lemma events_auth_plain:
  "Port c \<noteq> 587 \<Longrightarrow>
   Call i (Auth u p h) \<in> set (events_at c n re msg i)
     \<longleftrightarrow> u = User c \<and> p = Password c \<and> h = Host c \<and> n i (Dial (dial_address c))"
  by (auto simp add: events_at_def attempt_def Let_def split: if_splits)

lemma defers_no_call: "Call j x \<notin> set (defers_at c n re msg i)"
  by (auto simp add: defers_at_def attempt_def Let_def split: if_splits)

lemma trace_calls:
  "Call i x \<in> set (concat (map (events_at c n re msg) [0..<k]) @ rev (concat (map (defers_at c n re msg) [0..<k])))
     \<longleftrightarrow> i < k \<and> Call i x \<in> set (events_at c n re msg i)"
  by (auto simp add: defers_no_call dest: events_calls)

lemma events_auth_tls:
  "Port c = 587 \<Longrightarrow>
   Call i (Auth u p h) \<in> set (events_at c n re msg i)
     \<longleftrightarrow> u = User c \<and> p = Password c \<and> h = Host c \<and> n i (Dial (dial_address c))
         \<and> n i (StartTLS (Host c))"
  by (auto simp add: events_at_def attempt_def Let_def split: if_splits)

lemma events_exchange_tls:
  "Port c = 587 \<Longrightarrow> is_exchange x \<Longrightarrow> Call i x \<in> set (events_at c n re msg i)
     \<Longrightarrow> n i (StartTLS (Host c))"
  by (auto simp add: events_at_def attempt_def Let_def split: if_splits)

lemma events_tls_first:
  "Port c = 587 \<Longrightarrow> n i (Dial (dial_address c))
     \<Longrightarrow> take 2 (events_at c n re msg i) = [Call i (Dial (dial_address c)), Call i (StartTLS (Host c))]"
  by (simp add: events_at_def attempt_def Let_def)

text \<open>
  Claim C9. In the trace of a delivery, \<^verbatim>\<open>StartTLS\<close> is called in attempt \<open>i\<close>
  exactly when the configured port is 587, attempt \<open>i\<close> was made and its dial
  succeeded; the call names the configured host and comes directly after the dial, before
  any other call of the attempt. On port 587 the attempt goes on to the authentication
  exactly when that \<^verbatim>\<open>StartTLS\<close> succeeded, and no call that carries credentials,
  envelope or message is made in an attempt whose \<^verbatim>\<open>StartTLS\<close> failed. With any
  other port no attempt calls \<^verbatim>\<open>StartTLS\<close>, and an attempt whose dial succeeded
  goes straight on to the authentication. The trace is the events of the attempts made,
  in order, followed only by the deferred closes.
\<close>

theorem sendEmail_starttls:
  assumes "sendEmail c re rn sn subj bdy net = (r, tr)"
  shows "(Call i (StartTLS h) \<in> set tr
            \<longleftrightarrow> h = Host c \<and> Port c = 587 \<and> i < attempts tr \<and> net i (Dial (dial_address c)))
    \<and> (Port c \<noteq> 587 \<longrightarrow>
         (Call i (Auth (User c) (Password c) (Host c)) \<in> set tr
            \<longleftrightarrow> i < attempts tr \<and> net i (Dial (dial_address c))))
    \<and> (Port c = 587 \<longrightarrow>
         (Call i (Auth (User c) (Password c) (Host c)) \<in> set tr
            \<longleftrightarrow> i < attempts tr \<and> net i (Dial (dial_address c)) \<and> net i (StartTLS (Host c))))
    \<and> (\<forall>x. Port c = 587 \<longrightarrow> is_exchange x \<longrightarrow> Call i x \<in> set tr \<longrightarrow> net i (StartTLS (Host c)))
    \<and> (\<exists>cl. tr = concat (map (events_at c net re (message c rn sn subj bdy)) [0..<attempts tr]) @ cl
            \<and> (\<forall>e\<in>set cl. is_close e))
    \<and> (Port c = 587 \<longrightarrow> net i (Dial (dial_address c)) \<longrightarrow>
          take 2 (events_at c net re (message c rn sn subj bdy) i)
            = [Call i (Dial (dial_address c)), Call i (StartTLS (Host c))])"
proof -
  let ?msg = "message c rn sn subj bdy"
  let ?k = "made c net re ?msg"
  have tr: "tr = concat (map (events_at c net re ?msg) [0..<?k])
                   @ rev (concat (map (defers_at c net re ?msg) [0..<?k]))"
    using assms by (simp add: sendEmail_unfold Let_def)
  have att: "attempts tr = ?k"
    unfolding tr by (rule attempts_made)
  have calls: "\<And>x. Call i x \<in> set tr \<longleftrightarrow> i < ?k \<and> Call i x \<in> set (events_at c net re ?msg i)"
    unfolding tr by (rule trace_calls)
  have a: "Call i (StartTLS h) \<in> set tr
            \<longleftrightarrow> h = Host c \<and> Port c = 587 \<and> i < attempts tr \<and> net i (Dial (dial_address c))"
    by (auto simp add: calls att events_tls)
  have b: "Port c \<noteq> 587 \<longrightarrow>
         (Call i (Auth (User c) (Password c) (Host c)) \<in> set tr
            \<longleftrightarrow> i < attempts tr \<and> net i (Dial (dial_address c)))"
    by (auto simp add: calls att events_auth_plain)
  have d: "Port c = 587 \<longrightarrow>
         (Call i (Auth (User c) (Password c) (Host c)) \<in> set tr
            \<longleftrightarrow> i < attempts tr \<and> net i (Dial (dial_address c)) \<and> net i (StartTLS (Host c)))"
    by (auto simp add: calls att events_auth_tls)
  have e: "\<forall>x. Port c = 587 \<longrightarrow> is_exchange x \<longrightarrow> Call i x \<in> set tr \<longrightarrow> net i (StartTLS (Host c))"
    by (auto simp add: calls dest: events_exchange_tls)
  have f: "\<exists>cl. tr = concat (map (events_at c net re ?msg) [0..<attempts tr]) @ cl
            \<and> (\<forall>e\<in>set cl. is_close e)"
    unfolding att
    by (rule exI [of _ "rev (concat (map (defers_at c net re ?msg) [0..<?k]))"])
       (auto simp add: tr dest: defers_close)
  have g: "Port c = 587 \<longrightarrow> net i (Dial (dial_address c)) \<longrightarrow>
          take 2 (events_at c net re ?msg i)
            = [Call i (Dial (dial_address c)), Call i (StartTLS (Host c))]"
    by (simp add: events_tls_first)
  from a b d e f g show ?thesis by (intro conjI)
qed

lemma flaky_ok: "ok_at c flaky re msg i \<longleftrightarrow> 2 \<le> i"
  by (simp add: ok_at_def attempt_def flaky_def Let_def)

lemma flaky_attempts: "attempts (snd (sendEmail c re rn sn subj bdy flaky)) = 3"
  by (simp add: sendEmail_unfold Let_def attempts_made) (simp add: made_def flaky_ok)

lemma tls_refused_attempts: "Port c = 587 \<Longrightarrow> attempts (snd (sendEmail c re rn sn subj bdy tls_refused)) = 3"
  by (simp add: sendEmail_unfold Let_def attempts_made)
     (simp add: made_def ok_at_def attempt_def tls_refused_def Let_def)

theorem sendEmail_starttls_witness:
  "Call 2 (StartTLS ''mail.example.org'')
     \<in> set (snd (sendEmail cfg0 ''bob@example.org'' ''Bob'' ''Alice'' ''Hi {name}'' ''From {sender}'' flaky))
   \<and> Call 0 (StartTLS ''mail.example.org'')
     \<notin> set (snd (sendEmail cfg0 ''bob@example.org'' ''Bob'' ''Alice'' ''Hi {name}'' ''From {sender}'' flaky))
   \<and> Call 2 (StartTLS ''mail.example.org'')
     \<notin> set (snd (sendEmail (cfg0\<lparr>Port := 25\<rparr>) ''bob@example.org'' ''Bob'' ''Alice'' ''Hi {name}'' ''From {sender}'' flaky))
   \<and> Call 2 (Auth ''u'' ''p'' ''mail.example.org'')
     \<in> set (snd (sendEmail (cfg0\<lparr>Port := 25\<rparr>) ''bob@example.org'' ''Bob'' ''Alice'' ''Hi {name}'' ''From {sender}'' flaky))
   \<and> Call 2 (Auth ''u'' ''p'' ''mail.example.org'')
     \<in> set (snd (sendEmail cfg0 ''bob@example.org'' ''Bob'' ''Alice'' ''Hi {name}'' ''From {sender}'' flaky))
   \<and> Call 0 (StartTLS ''mail.example.org'')
     \<in> set (snd (sendEmail cfg0 ''bob@example.org'' ''Bob'' ''Alice'' ''Hi {name}'' ''From {sender}'' tls_refused))
   \<and> Call 0 (Auth ''u'' ''p'' ''mail.example.org'')
     \<notin> set (snd (sendEmail cfg0 ''bob@example.org'' ''Bob'' ''Alice'' ''Hi {name}'' ''From {sender}'' tls_refused))"
proof -
  have p: "Port cfg0 = 587"
    by (simp add: cfg0_def)
  show ?thesis
    using sendEmail_starttls [OF prod.collapse [symmetric], where c = "cfg0" and re = "''bob@example.org''" and rn = "''Bob''"
        and sn = "''Alice''" and subj = "''Hi {name}''" and bdy = "''From {sender}''" and net = flaky and i = 2
        and h = "''mail.example.org''"]
      sendEmail_starttls [OF prod.collapse [symmetric], where c = "cfg0" and re = "''bob@example.org''" and rn = "''Bob''"
        and sn = "''Alice''" and subj = "''Hi {name}''" and bdy = "''From {sender}''" and net = flaky and i = 0
        and h = "''mail.example.org''"]
      sendEmail_starttls [OF prod.collapse [symmetric], where c = "cfg0\<lparr>Port := 25\<rparr>" and re = "''bob@example.org''" and rn = "''Bob''"
        and sn = "''Alice''" and subj = "''Hi {name}''" and bdy = "''From {sender}''" and net = flaky and i = 2
        and h = "''mail.example.org''"]
      sendEmail_starttls [OF prod.collapse [symmetric], where c = "cfg0" and re = "''bob@example.org''" and rn = "''Bob''"
        and sn = "''Alice''" and subj = "''Hi {name}''" and bdy = "''From {sender}''" and net = tls_refused and i = 0
        and h = "''mail.example.org''"]
    by (simp add: flaky_attempts tls_refused_attempts [OF p]) (simp add: cfg0_def flaky_def tls_refused_def)
qed

section \<open>Properties of the placeholder substitution\<close>

lemma ra_nil [simp]: "old \<noteq> [] \<Longrightarrow> replaceAll [] old new = []"
  by (subst replaceAll.simps) simp

lemma ra_hit: "old \<noteq> [] \<Longrightarrow> replaceAll (old @ s) old new = new @ replaceAll s old new"
  by (subst replaceAll.simps) simp

lemma ra_miss:
  "old \<noteq> [] \<Longrightarrow> \<not> prefix old (c # s) \<Longrightarrow> replaceAll (c # s) old new = c # replaceAll s old new"
  by (subst replaceAll.simps) simp

lemma ra_sender_free:
  "sender_free r \<Longrightarrow> replaceAll (r @ x) ''{sender}'' new = r @ replaceAll x ''{sender}'' new"
proof (induction r)
  case Nil
  then show ?case by simp
next
  case (Cons c cs)
  have "\<not> prefix ''{sender}'' ((c # cs) @ x)"
    using Cons.prems unfolding prefix_append by (auto simp: prefix_def)
  then show ?case
    using Cons by (simp add: ra_miss)
qed

lemma name_pass_sender:
  "replaceAll (''{sender}'' @ t) ''{name}'' r = ''{sender}'' @ replaceAll t ''{name}'' r"
  by (simp add: ra_miss)

lemma name_pass_prefix:
  "CHR ''{'' \<notin> set v \<Longrightarrow> prefix v (replaceAll t ''{name}'' r)
     \<Longrightarrow> prefix v t \<or> (\<exists>u. strict_prefix u v \<and> prefix (u @ ''{name}'') t)"
proof (induction v arbitrary: t)
  case Nil
  then show ?case by simp
next
  case (Cons a v)
  show ?case
  proof (cases t)
    case Nil
    with Cons.prems show ?thesis by simp
  next
    case (Cons c t')
    show ?thesis
    proof (cases "prefix ''{name}'' t")
      case True
      then have "strict_prefix [] (a # v) \<and> prefix ([] @ ''{name}'') t" by simp
      then show ?thesis by blast
    next
      case False
      then have "replaceAll t ''{name}'' r = c # replaceAll t' ''{name}'' r"
        using Cons by (simp add: ra_miss)
      with Cons.prems have ac: "a = c" and p: "prefix v (replaceAll t' ''{name}'' r)"
        by simp_all
      from Cons.prems have "CHR ''{'' \<notin> set v" by simp
      from Cons.IH [OF this p] show ?thesis
      proof
        assume "prefix v t'"
        then show ?thesis using ac Cons by simp
      next
        assume "\<exists>u. strict_prefix u v \<and> prefix (u @ ''{name}'') t'"
        then obtain u where "strict_prefix u v" "prefix (u @ ''{name}'') t'" by blast
        then have "strict_prefix (a # u) (a # v) \<and> prefix ((a # u) @ ''{name}'') t"
          using ac Cons by simp
        then show ?thesis by blast
      qed
    qed
  qed
qed

lemma tokens_intact_drop: "tokens_intact t \<Longrightarrow> tokens_intact (drop n t)"
proof (induction t arbitrary: n)
  case Nil
  then show ?case by simp
next
  case (Cons c cs)
  then show ?case by (cases n) simp_all
qed

lemma strict_prefix_sender:
  "strict_prefix u ''sender}'' \<Longrightarrow> u \<in> set (prefixes ''sender'')"
proof -
  assume "strict_prefix u ''sender}''"
  then have "strict_prefix u (''sender'' @ [CHR ''}''])" by simp
  then have "prefix u ''sender''" unfolding strict_prefix_def prefix_snoc by blast
  then show ?thesis unfolding in_set_prefixes .
qed

lemma substitute_is_spec:
  "sender_free r \<Longrightarrow> tokens_intact t \<Longrightarrow> substitute t r s = substitute_spec t r s"
proof (induction t r s rule: substitute_spec.induct)
  case (1 t r s)
  show ?case
  proof (cases "t = []")
    case True
    then show ?thesis by (simp add: substitute_def substitute_spec.simps)
  next
    case nonempty: False
    show ?thesis
    proof (cases "prefix ''{name}'' t")
      case True
      then have t: "t = ''{name}'' @ drop 6 t"
        by (auto simp: prefix_def)
      have ih: "substitute (drop 6 t) r s = substitute_spec (drop 6 t) r s"
        using "1.IH"(1) [OF nonempty True] "1.prems" by (simp add: tokens_intact_drop)
      have "substitute t r s = replaceAll (r @ replaceAll (drop 6 t) ''{name}'' r) ''{sender}'' s"
        unfolding substitute_def by (subst t) (simp only: ra_hit list.simps not_False_eq_True)
      also have "\<dots> = r @ substitute (drop 6 t) r s"
        using "1.prems"(1) by (simp add: ra_sender_free substitute_def)
      finally show ?thesis
        using True nonempty ih by (subst substitute_spec.simps) simp
    next
      case noname: False
      show ?thesis
      proof (cases "prefix ''{sender}'' t")
        case True
        then have t: "t = ''{sender}'' @ drop 8 t"
          by (auto simp: prefix_def)
        have ih: "substitute (drop 8 t) r s = substitute_spec (drop 8 t) r s"
          using "1.IH"(2) [OF nonempty noname True] "1.prems" by (simp add: tokens_intact_drop)
        have "substitute t r s = replaceAll (''{sender}'' @ replaceAll (drop 8 t) ''{name}'' r) ''{sender}'' s"
          unfolding substitute_def by (subst t) (simp only: name_pass_sender)
        also have "\<dots> = s @ substitute (drop 8 t) r s"
          by (simp only: ra_hit substitute_def list.simps not_False_eq_True)
        finally show ?thesis
          using True noname nonempty ih by (subst substitute_spec.simps) simp
      next
        case nosender: False
        obtain c t' where t: "t = c # t'"
          using nonempty by (cases t) auto
        have ih: "substitute t' r s = substitute_spec t' r s"
          using "1.IH"(3) [OF nonempty noname nosender] "1.prems" t by simp
        have p1: "replaceAll t ''{name}'' r = c # replaceAll t' ''{name}'' r"
          using noname t by (simp add: ra_miss)
        have "\<not> prefix ''{sender}'' (c # replaceAll t' ''{name}'' r)"
        proof
          assume a: "prefix ''{sender}'' (c # replaceAll t' ''{name}'' r)"
          then have both: "CHR ''{'' = c \<and> prefix ''sender}'' (replaceAll t' ''{name}'' r)"
            by (rule iffD1 [OF Cons_prefix_Cons])
          from both have c: "c = CHR ''{''"
            by blast
          from both have p: "prefix ''sender}'' (replaceAll t' ''{name}'' r)"
            by blast
          have "prefix ''sender}'' t' \<or> (\<exists>u. strict_prefix u ''sender}'' \<and> prefix (u @ ''{name}'') t')"
            by (rule name_pass_prefix [OF _ p]) simp
          then show False
          proof
            assume "prefix ''sender}'' t'"
            with c t nosender show False by simp
          next
            assume "\<exists>u. strict_prefix u ''sender}'' \<and> prefix (u @ ''{name}'') t'"
            then obtain u where u: "strict_prefix u ''sender}''" "prefix (u @ ''{name}'') t'" by blast
            from u(1) have "u \<in> set (prefixes ''sender'')" by (rule strict_prefix_sender)
            with u(2) have "list_ex (\<lambda>u. prefix (u @ ''{name}'') t') (prefixes ''sender'')"
              unfolding list_ex_iff by blast
            with "1.prems"(2) c t show False by simp
          qed
        qed
        then have "substitute t r s = c # substitute t' r s"
          unfolding substitute_def p1 by (simp add: ra_miss)
        moreover have "substitute_spec t r s = hd t # substitute_spec (tl t) r s"
          using noname nosender nonempty by (subst substitute_spec.simps) simp
        ultimately show ?thesis
          using ih t by simp
      qed
    qed
  qed
qed

text \<open>
  Against claim C3 as it is stated: a \<^verbatim>\<open>{sender}\<close> token inside the recipient
  display name is substituted again, by the second pass.
\<close>

theorem substitute_counterexample:
  "substitute ''Hi {name}'' ''{sender}'' ''Alice'' = ''Hi Alice''
   \<and> substitute_spec ''Hi {name}'' ''{sender}'' ''Alice'' = ''Hi {sender}''
   \<and> substitute ''Hi {name}'' ''{sender}'' ''Alice'' \<noteq> substitute_spec ''Hi {name}'' ''{sender}'' ''Alice''"
  by (simp add: substitute_def replaceAll.simps substitute_spec.simps)

text \<open>
  Claim C3, amended. Delivery replaces every \<^verbatim>\<open>{name}\<close> of the subject and of the
  body by the recipient display name, and then every \<^verbatim>\<open>{sender}\<close> of the result by
  the sender display name. When no \<^verbatim>\<open>{sender}\<close> token, whole or cut off, starts
  inside the recipient display name, and neither template interrupts an opened
  \<^verbatim>\<open>{sender}\<close> token with a \<^verbatim>\<open>{name}\<close> token, the two passes are the single
  pass of the specification, in the subject, in the body and in the composed message:
  tokens are matched exactly as written, and a token inside the sender display name, or a
  \<^verbatim>\<open>{name}\<close> token inside the recipient display name, is left as it is.
\<close>

theorem message_substitution:
  assumes "sender_free recipientName" and "tokens_intact subj" and "tokens_intact bdy"
  shows "substitute subj recipientName senderName = substitute_spec subj recipientName senderName
    \<and> substitute bdy recipientName senderName = substitute_spec bdy recipientName senderName
    \<and> message c recipientName senderName subj bdy =
        ''From: '' @ senderName @ '' <'' @ From c @ ''>'' @ [CHR 0x0A]
          @ ''Subject: '' @ substitute_spec subj recipientName senderName @ [CHR 0x0A, CHR 0x0A]
          @ substitute_spec bdy recipientName senderName"
  using assms by (simp add: substitute_is_spec message_def Let_def)

theorem message_substitution_witness:
  "sender_free ''Bob'' \<and> tokens_intact ''Hi {name} from {sender}'' \<and> tokens_intact ''Dear {Name}, {name}''
   \<and> substitute ''Hi {name} from {sender}'' ''Bob'' ''Alice'' = ''Hi Bob from Alice''
   \<and> substitute ''Dear {Name}, {name}'' ''Bob'' ''Alice'' = ''Dear {Name}, Bob''
   \<and> sender_free ''{name}''
   \<and> substitute ''Hi {name} from {sender}'' ''{name}'' ''{sender}{name}'' = ''Hi {name} from {sender}{name}''"
proof -
  have h: "sender_free ''Bob''" "tokens_intact ''Hi {name} from {sender}''" "tokens_intact ''Dear {Name}, {name}''"
    "sender_free ''{name}''"
    by simp_all
  show ?thesis
    using h message_substitution [OF h(1) h(2) h(3), of "''Alice''" cfg0]
      message_substitution [OF h(4) h(2) h(3), of "''{sender}{name}''" cfg0]
    by (simp add: substitute_spec.simps)
qed

section \<open>Properties of the dispatch run\<close>

lemma worker_successCount:
  "successCount (worker e r st) = successCount st + (if delivers e (smtpConfig st) r then 1 else 0)"
  by (simp add: worker_def delivers_def db_exec_def listener_def Let_def split: prod.splits sum.splits)

lemma worker_failureCount:
  "failureCount (worker e r st) = failureCount st + (if delivers e (smtpConfig st) r then 0 else 1)"
  by (auto simp add: worker_def delivers_def db_exec_def listener_def Let_def split: prod.splits sum.splits)

lemma worker_totalEmails: "totalEmails (worker e r st) = totalEmails st"
  by (simp add: worker_def db_exec_def listener_def Let_def split: prod.splits sum.splits)

lemma worker_smtpConfig: "smtpConfig (worker e r st) = smtpConfig st"
  by (simp add: worker_def db_exec_def listener_def Let_def split: prod.splits sum.splits)

lemma worker_db:
  "db (worker e r st) =
     (if db_fails e (Exec_update ''sent'' (row_id r)) then db st
      else update_status ''sent'' (row_id r) (db st))"
  by (simp add: worker_def db_exec_def listener_def Let_def split: prod.splits sum.splits)

lemma worker_progressBar:
  "progressBar (worker e r st) = (successCount st + failureCount st + 1, totalEmails st)"
  by (simp add: worker_def db_exec_def listener_def Let_def split: prod.splits sum.splits)

lemma worker_resultLabel:
  "resultLabel (worker e r st) =
     Progress (successCount st + failureCount st + 1, totalEmails st)
       (successCount (worker e r st)) (failureCount (worker e r st))"
  by (simp add: worker_def db_exec_def listener_def Let_def split: prod.splits sum.splits)

lemma worker_effects:
  "effects (worker e r st) =
     effects st @ delivery_events e (smtpConfig st) r
       @ [Db (Exec_update ''sent'' (row_id r)), Pause emailDelay]"
  by (simp add: worker_def delivery_events_def db_exec_def listener_def Let_def split: prod.splits sum.splits)

lemmas worker_simps = worker_successCount worker_failureCount worker_totalEmails worker_smtpConfig
  worker_db worker_progressBar worker_effects


lemma dispatch_smtpConfig: "smtpConfig (dispatch e rs st) = smtpConfig st"
  by (induction rs arbitrary: st) (simp_all add: worker_smtpConfig)

lemma dispatch_totalEmails: "totalEmails (dispatch e rs st) = totalEmails st"
  by (induction rs arbitrary: st) (simp_all add: worker_totalEmails)

lemma dispatch_successCount:
  "successCount (dispatch e rs st) = successCount st + sent_among e (smtpConfig st) rs"
  by (induction rs arbitrary: st)
     (simp_all add: worker_successCount worker_smtpConfig sent_among_def scanned_def)

lemma dispatch_failureCount:
  "failureCount (dispatch e rs st) = failureCount st + failed_among e (smtpConfig st) rs"
  by (induction rs arbitrary: st)
     (simp_all add: worker_failureCount worker_smtpConfig failed_among_def scanned_def)


lemma sendEmails_completes:
  "completes e st \<Longrightarrow>
   sendEmails e st =
     (db_exec e Exec_delete delete_all (dispatch e (pending_rows (db st)) (loop_start st)))
       \<lparr>progressBar := (1, 1),
        resultLabel := Job_completed (successCount (dispatch e (pending_rows (db st)) (loop_start st)))
                         (failureCount (dispatch e (pending_rows (db st)) (loop_start st)))\<rparr>"
  by (simp add: completes_def sendEmails_def loop_start_def Let_def db_exec_def)

lemma sendEmails_stops:
  "\<not> completes e st \<Longrightarrow>
   sendEmails e st =
     (if db_fails e Query_pending
        then st\<lparr>effects := effects st @ [Db Query_pending], resultLabel := Fetch_failed\<rparr>
      else if db_fails e Query_count
        then st\<lparr>effects := effects st @ [Db Query_pending, Db Query_count], resultLabel := Count_failed\<rparr>
      else st\<lparr>effects := effects st @ [Db Query_pending, Db Query_count], totalEmails := 0,
              resultLabel := No_pending\<rparr>)"
  by (auto simp add: completes_def sendEmails_def Let_def)

lemma sendEmails_successCount:
  "successCount (sendEmails e st) =
     successCount st + (if completes e st then sent_among e (smtpConfig st) (pending_rows (db st)) else 0)"
  by (cases "completes e st")
     (simp_all add: sendEmails_completes sendEmails_stops db_exec_def dispatch_successCount loop_start_def)

lemma sendEmails_failureCount:
  "failureCount (sendEmails e st) =
     failureCount st + (if completes e st then failed_among e (smtpConfig st) (pending_rows (db st)) else 0)"
  by (cases "completes e st")
     (simp_all add: sendEmails_completes sendEmails_stops db_exec_def dispatch_failureCount loop_start_def)

lemma sendEmails_resultLabel:
  "completes e st \<Longrightarrow>
   resultLabel (sendEmails e st) =
     Job_completed (successCount st + sent_among e (smtpConfig st) (pending_rows (db st)))
       (failureCount st + failed_among e (smtpConfig st) (pending_rows (db st)))"
  by (simp add: sendEmails_completes dispatch_successCount dispatch_failureCount loop_start_def)

lemma sendEmails_totalEmails:
  "completes e st \<Longrightarrow> totalEmails (sendEmails e st) = int (length (pending_rows (db st)))"
  by (simp add: sendEmails_completes db_exec_def dispatch_totalEmails loop_start_def)

lemma sendEmails_rows:
  "completes e st \<Longrightarrow> \<not> db_fails e Exec_delete \<Longrightarrow> rows (db (sendEmails e st)) = []"
  by (simp add: sendEmails_completes db_exec_def delete_all_def)

lemma queue_loop_counters:
  "successCount (queue_loop e rs st) = successCount st \<and> failureCount (queue_loop e rs st) = failureCount st
   \<and> smtpConfig (queue_loop e rs st) = smtpConfig st \<and> emailSubject (queue_loop e rs st) = emailSubject st
   \<and> emailBody (queue_loop e rs st) = emailBody st \<and> recipients (queue_loop e rs st) = recipients st"
  by (induction rs arbitrary: st) (simp_all add: db_exec_def)

lemma queueEmails_counters:
  "successCount (queueEmails e st) = successCount st" "failureCount (queueEmails e st) = failureCount st"
  "smtpConfig (queueEmails e st) = smtpConfig st" "recipients (queueEmails e st) = recipients st"
  "emailSubject (queueEmails e st) = emailSubject st" "emailBody (queueEmails e st) = emailBody st"
  by (simp_all add: queueEmails_def queue_loop_counters)

lemma delivers_calm: "delivers calm cfg r"
  by (simp add: delivers_def sendEmail_unfold Let_def calm_def ok_at_def attempt_def)

lemma delivers_dead: "\<not> delivers dead cfg r"
  by (simp add: delivers_def sendEmail_unfold Let_def dead_def ok_at_def attempt_def)

lemma calm_db [simp]: "db_fails calm c = False"
  by (simp add: calm_def)

lemma dead_db [simp]: "db_fails dead c = False"
  by (simp add: dead_def)

lemma loaded_fields:
  "db loaded = \<lparr>rows = [], seq = 0\<rparr>" "successCount loaded = 0" "failureCount loaded = 0"
  "recipients loaded = [bob]" "emailSubject loaded = ''Hi {name}''" "emailBody loaded = ''Regards, {sender}''"
  "smtpConfig loaded = cfg0"
  by (simp_all add: loaded_def startup_def delete_all_def)

lemma queue_one:
  "recipients st = [bob] \<Longrightarrow> emailSubject st = ''Hi {name}'' \<Longrightarrow> emailBody st = ''Regards, {sender}''
   \<Longrightarrow> db (queueEmails calm st) = \<lparr>rows = rows (db st) @ [job (seq (db st) + 1)], seq = seq (db st) + 1\<rparr>"
  by (simp add: queueEmails_def db_exec_def insert_row_def bob_def job_def default_status_def)

lemma pending_queued: "pending_rows (db (queueEmails calm loaded)) = [job 1]"
  by (simp add: queue_one loaded_fields pending_rows_def job_def)

lemma completes_queued: "completes calm (queueEmails calm loaded)"
  by (simp add: completes_def pending_queued)

lemma among_calm: "sent_among calm cfg rs = int (length rs)" "failed_among calm cfg rs = 0"
  by (simp_all add: sent_among_def failed_among_def scanned_def delivers_calm)

lemma among_dead: "sent_among dead cfg rs = 0" "failed_among dead cfg rs = int (length rs)"
  by (simp_all add: sent_among_def failed_among_def scanned_def delivers_dead)

lemma sendEmails_smtpConfig: "smtpConfig (sendEmails e st) = smtpConfig st"
  by (cases "completes e st")
     (simp_all add: sendEmails_completes sendEmails_stops db_exec_def dispatch_smtpConfig loop_start_def)

lemma dispatch_keeps:
  "recipients (dispatch e rs st) = recipients st \<and> emailSubject (dispatch e rs st) = emailSubject st
   \<and> emailBody (dispatch e rs st) = emailBody st \<and> seq (db (dispatch e rs st)) = seq (db st)"
  by (induction rs arbitrary: st)
     (simp_all add: worker_def db_exec_def listener_def update_status_def Let_def split: prod.splits sum.splits)

lemma sendEmails_keeps:
  "recipients (sendEmails e st) = recipients st" "emailSubject (sendEmails e st) = emailSubject st"
  "emailBody (sendEmails e st) = emailBody st" "seq (db (sendEmails e st)) = seq (db st)"
  by (cases "completes e st";
      simp add: sendEmails_completes sendEmails_stops db_exec_def dispatch_keeps loop_start_def delete_all_def)+

lemma first_run_fields:
  "successCount first_run = 1" "failureCount first_run = 0" "db first_run = \<lparr>rows = [], seq = 1\<rparr>"
  "recipients first_run = [bob]" "emailSubject first_run = ''Hi {name}''"
  "emailBody first_run = ''Regards, {sender}''" "smtpConfig first_run = cfg0"
  "resultLabel first_run = Job_completed 1 0" "totalEmails first_run = 1"
proof -
  note c = completes_queued
  show "successCount first_run = 1" "failureCount first_run = 0"
    by (simp_all add: first_run_def sendEmails_successCount sendEmails_failureCount c among_calm
          pending_queued queueEmails_counters loaded_fields)
  have "rows (db first_run) = []"
    unfolding first_run_def by (rule sendEmails_rows [OF c]) simp
  moreover have "seq (db first_run) = 1"
    by (simp add: first_run_def sendEmails_keeps queue_one loaded_fields)
  ultimately show "db first_run = \<lparr>rows = [], seq = 1\<rparr>"
    by (cases "db first_run") simp
  show "recipients first_run = [bob]" "emailSubject first_run = ''Hi {name}''"
    "emailBody first_run = ''Regards, {sender}''" "smtpConfig first_run = cfg0"
    by (simp_all add: first_run_def sendEmails_keeps sendEmails_smtpConfig queueEmails_counters loaded_fields)
  show "resultLabel first_run = Job_completed 1 0" "totalEmails first_run = 1"
    by (simp_all add: first_run_def sendEmails_resultLabel sendEmails_totalEmails c among_calm
          pending_queued queueEmails_counters loaded_fields)
qed

lemma pending_requeued: "pending_rows (db (queueEmails calm first_run)) = [job 2]"
  by (simp add: queue_one first_run_fields pending_rows_def job_def)




text \<open>
  Claim C1, on the code: one recipient is queued and sent, then queued again and sent
  over a network that refuses everything. The second run fetches one job and reports
  one sent and one failed.
\<close>

theorem second_run_summary:
  "pending_rows (db (queueEmails calm first_run)) = [job 2]
   \<and> totalEmails (sendEmails dead (queueEmails calm first_run)) = 1
   \<and> resultLabel (sendEmails dead (queueEmails calm first_run)) = Job_completed 1 1
   \<and> successCount (sendEmails dead (queueEmails calm first_run))
       + failureCount (sendEmails dead (queueEmails calm first_run)) = 2
   \<and> rows (db (sendEmails dead (queueEmails calm first_run))) = []"
proof -
  have c: "completes dead (queueEmails calm first_run)"
    by (simp add: completes_def pending_requeued)
  show ?thesis
    by (simp add: pending_requeued sendEmails_totalEmails sendEmails_resultLabel sendEmails_rows
          sendEmails_successCount sendEmails_failureCount c among_dead queueEmails_counters
          first_run_fields)
qed

text \<open>
  Claim C4, on the code: the worker of a job whose delivery fails on all three attempts
  counts one failure and then sets the status of the row to \<^verbatim>\<open>'sent'\<close>.
\<close>

theorem failed_job_marked_sent:
  "pending_rows (db (queueEmails calm loaded)) = [job 1]
   \<and> \<not> delivers dead cfg0 (job 1)
   \<and> failureCount (worker dead (job 1) (queueEmails calm loaded)) = 1
   \<and> successCount (worker dead (job 1) (queueEmails calm loaded)) = 0
   \<and> rows (db (worker dead (job 1) (queueEmails calm loaded))) = [(job 1)\<lparr>status := ''sent''\<rparr>]
   \<and> Db (Exec_update ''sent'' 1) \<in> set (effects (worker dead (job 1) (queueEmails calm loaded)))"
proof (intro conjI)
  show "pending_rows (db (queueEmails calm loaded)) = [job 1]"
    by (rule pending_queued)
  show "\<not> delivers dead cfg0 (job 1)"
    by (rule delivers_dead)
  show "failureCount (worker dead (job 1) (queueEmails calm loaded)) = 1"
    by (simp add: worker_failureCount delivers_dead queueEmails_counters loaded_fields)
  show "successCount (worker dead (job 1) (queueEmails calm loaded)) = 0"
    by (simp add: worker_successCount delivers_dead queueEmails_counters loaded_fields)
  show "rows (db (worker dead (job 1) (queueEmails calm loaded))) = [(job 1)\<lparr>status := ''sent''\<rparr>]"
    by (simp add: worker_db queue_one loaded_fields update_status_def job_def)
  show "Db (Exec_update ''sent'' 1) \<in> set (effects (worker dead (job 1) (queueEmails calm loaded)))"
    by (simp add: worker_effects) (simp add: job_def)
qed

text \<open>
  Against claim C8 as it is stated: after a run that sent one message, a run with nothing
  pending reports "No pending emails to send." and leaves the success counter at one.
\<close>

theorem nothing_pending_counterexample:
  "pending_rows (db first_run) = []
   \<and> resultLabel (sendEmails calm first_run) = No_pending
   \<and> successCount (sendEmails calm first_run) = 1
   \<and> \<not> (successCount (sendEmails calm first_run) = 0 \<and> failureCount (sendEmails calm first_run) = 0)"
proof -
  have p: "pending_rows (db first_run) = []"
    by (simp add: first_run_fields pending_rows_def)
  then have "\<not> completes calm first_run"
    by (simp add: completes_def)
  then show ?thesis
    using p by (simp add: sendEmails_stops first_run_fields)
qed

text \<open>
  Claim C8, amended. A run that finds no pending row returns at once: with both queries
  succeeding it reports "No pending emails to send." and a total of zero. It changes
  neither counter, nor the progress bar, nor the store, and does nothing to the outside
  but its two queries: no worker is started and nothing is purged. The store is empty
  afterwards whenever it held only pending rows.
\<close>

theorem nothing_pending:
  assumes "pending_rows (db st) = []"
  shows "(\<not> db_fails e Query_pending \<and> \<not> db_fails e Query_count \<longrightarrow>
            resultLabel (sendEmails e st) = No_pending \<and> totalEmails (sendEmails e st) = 0)
    \<and> successCount (sendEmails e st) = successCount st
    \<and> failureCount (sendEmails e st) = failureCount st
    \<and> progressBar (sendEmails e st) = progressBar st
    \<and> db (sendEmails e st) = db st
    \<and> (\<exists>qs. effects (sendEmails e st) = effects st @ qs \<and> set qs \<subseteq> {Db Query_pending, Db Query_count})
    \<and> ((\<forall>r\<in>set (rows (db st)). status r = ''pending'') \<longrightarrow> rows (db (sendEmails e st)) = [])"
proof -
  from assms have n: "\<not> completes e st"
    by (simp add: completes_def)
  have e: "\<exists>qs. effects (sendEmails e st) = effects st @ qs \<and> set qs \<subseteq> {Db Query_pending, Db Query_count}"
    by (simp add: sendEmails_stops [OF n])
  have r: "(\<forall>r\<in>set (rows (db st)). status r = ''pending'') \<longrightarrow> rows (db (sendEmails e st)) = []"
  proof
    assume "\<forall>r\<in>set (rows (db st)). status r = ''pending''"
    then have "pending_rows (db st) = rows (db st)"
      by (simp add: pending_rows_def)
    with assms show "rows (db (sendEmails e st)) = []"
      by (simp add: sendEmails_stops [OF n])
  qed
  from e r show ?thesis
    by (simp add: sendEmails_stops [OF n])
qed

theorem nothing_pending_witness:
  "pending_rows (db loaded) = []
   \<and> resultLabel (sendEmails calm loaded) = No_pending
   \<and> successCount (sendEmails calm loaded) = 0 \<and> failureCount (sendEmails calm loaded) = 0
   \<and> rows (db (sendEmails calm loaded)) = []"
proof -
  have p: "pending_rows (db loaded) = []"
    by (simp add: loaded_fields pending_rows_def)
  from nothing_pending [OF p, of calm] p show ?thesis
    by (simp add: loaded_fields)
qed

lemma row_step_trans: "row_step a b \<Longrightarrow> row_step b c \<Longrightarrow> row_step a c"
  by (auto simp add: row_step_def)

lemma marks_refl: "marks d d"
  by (simp add: marks_def list_all2_same row_step_def)

lemma marks_trans:
  assumes "marks a b" and "marks b c"
  shows "marks a c"
proof -
  have "list_all2 row_step (rows a) (rows c)"
  proof (rule list_all2_trans)
    show "list_all2 row_step (rows a) (rows b)" using assms(1) by (simp add: marks_def)
    show "list_all2 row_step (rows b) (rows c)" using assms(2) by (simp add: marks_def)
  qed (rule row_step_trans)
  then show ?thesis by (simp add: marks_def)
qed

lemma update_marks: "valid_statuses d \<Longrightarrow> marks d (update_status ''sent'' i d)"
  by (auto simp add: marks_def update_status_def list_all2_map2 list_all2_same row_step_def
        valid_statuses_def)

lemma update_valid: "valid_statuses d \<Longrightarrow> valid_statuses (update_status ''sent'' i d)"
  by (auto simp add: update_status_def valid_statuses_def)

lemma worker_marks: "valid_statuses (db st) \<Longrightarrow> marks (db st) (db (worker e r st))"
  by (simp add: worker_db update_marks marks_refl)

lemma worker_valid: "valid_statuses (db st) \<Longrightarrow> valid_statuses (db (worker e r st))"
  by (simp add: worker_db update_valid)

lemma dispatch_marks:
  "valid_statuses (db st) \<Longrightarrow> marks (db st) (db (dispatch e rs st)) \<and> valid_statuses (db (dispatch e rs st))"
proof (induction rs arbitrary: st)
  case Nil
  then show ?case by (simp add: marks_refl)
next
  case (Cons r rs)
  show ?case
  proof (cases "db_fails e (Scan (row_id r))")
    case True
    have "valid_statuses (db (st\<lparr>effects := effects st @ [Db (Scan (row_id r))]\<rparr>))"
      using Cons.prems by simp
    from Cons.IH [OF this] True show ?thesis by simp
  next
    case False
    let ?st = "st\<lparr>effects := effects st @ [Db (Scan (row_id r)), Go (row_id r)]\<rparr>"
    have v: "valid_statuses (db ?st)" using Cons.prems by simp
    have m1: "marks (db st) (db (worker e r ?st))"
      using worker_marks [OF v] by simp
    have v1: "valid_statuses (db (worker e r ?st))"
      by (rule worker_valid [OF v])
    from Cons.IH [OF v1] m1 False show ?thesis
      by (auto intro: marks_trans)
  qed
qed

lemma queue_loop_grows:
  "valid_statuses (db st) \<Longrightarrow>
   grows (db st) (db (queue_loop e rs st)) \<and> valid_statuses (db (queue_loop e rs st))"
proof (induction rs arbitrary: st)
  case Nil
  then show ?case by (simp add: grows_def)
next
  case (Cons r rs)
  let ?st = "db_exec e (Exec_insert r) (insert_row r (emailSubject st) (emailBody st)) st"
  have g: "grows (db st) (db ?st)"
    by (simp add: db_exec_def grows_def insert_row_def default_status_def)
  have v: "valid_statuses (db ?st)"
    using Cons.prems by (auto simp add: db_exec_def valid_statuses_def insert_row_def default_status_def)
  from Cons.IH [OF v] have g2: "grows (db ?st) (db (queue_loop e rs ?st))"
    and v2: "valid_statuses (db (queue_loop e rs ?st))" by simp_all
  from g g2 have "grows (db st) (db (queue_loop e rs ?st))"
    unfolding grows_def by (elim exE conjE) (rename_tac a b, rule_tac x = "a @ b" in exI, auto)
  with v2 show ?case by simp
qed

lemma delivery_events_net: "x \<in> set (delivery_events e cfg r) \<Longrightarrow> \<exists>j ev. x = Net j ev"
  by (auto simp add: delivery_events_def)

lemma dispatch_updates:
  "Db (Exec_update v i) \<in> set (effects (dispatch e rs st))
     \<Longrightarrow> v = ''sent'' \<or> Db (Exec_update v i) \<in> set (effects st)"
proof (induction rs arbitrary: st)
  case Nil
  then show ?case by simp
next
  case (Cons r rs)
  show ?case
  proof (cases "db_fails e (Scan (row_id r))")
    case True
    with Cons.prems have "Db (Exec_update v i) \<in> set (effects (dispatch e rs
        (st\<lparr>effects := effects st @ [Db (Scan (row_id r))]\<rparr>)))" by simp
    from Cons.IH [OF this] show ?thesis by auto
  next
    case False
    with Cons.prems have "Db (Exec_update v i) \<in> set (effects (dispatch e rs
        (worker e r (st\<lparr>effects := effects st @ [Db (Scan (row_id r)), Go (row_id r)]\<rparr>))))" by simp
    from Cons.IH [OF this] show ?thesis
      by (auto simp add: worker_effects dest: delivery_events_net)
  qed
qed

lemma queue_loop_updates:
  "Db (Exec_update v i) \<in> set (effects (queue_loop e rs st)) \<Longrightarrow> Db (Exec_update v i) \<in> set (effects st)"
proof (induction rs arbitrary: st)
  case Nil
  then show ?case by simp
next
  case (Cons r rs)
  from Cons.prems have "Db (Exec_update v i) \<in> set (effects (queue_loop e rs
      (db_exec e (Exec_insert r) (insert_row r (emailSubject st) (emailBody st)) st)))" by simp
  from Cons.IH [OF this] show ?case
    by (simp add: db_exec_def)
qed

lemma sendEmails_updates:
  "Db (Exec_update v i) \<in> set (effects (sendEmails e st))
     \<Longrightarrow> v = ''sent'' \<or> Db (Exec_update v i) \<in> set (effects st)"
proof (cases "completes e st")
  case True
  assume "Db (Exec_update v i) \<in> set (effects (sendEmails e st))"
  then have "Db (Exec_update v i) \<in> set (effects (dispatch e (pending_rows (db st)) (loop_start st)))"
    by (simp add: sendEmails_completes [OF True] db_exec_def)
  from dispatch_updates [OF this] show ?thesis
    by (auto simp add: loop_start_def)
next
  case False
  assume "Db (Exec_update v i) \<in> set (effects (sendEmails e st))"
  then show ?thesis
    by (simp add: sendEmails_stops [OF False] split: if_splits)
qed

text \<open>
  Claim C7. In a table whose statuses are \<^verbatim>\<open>'pending'\<close> or \<^verbatim>\<open>'sent'\<close>, as
  it is from the start of the process on: queueing keeps every row as it is and adds
  pending rows only; a worker, the loop over the fetched rows and a whole run keep every
  row or move it from pending to sent, nothing else, unless the run ends by deleting the
  rows; the statuses stay within the two values; and the only status a run ever writes is
  \<^verbatim>\<open>'sent'\<close>, queueing writing none.
\<close>

theorem status_pending_to_sent:
  assumes "valid_statuses (db st)"
  shows "grows (db st) (db (queueEmails e st))
    \<and> marks (db st) (db (worker e r st))
    \<and> marks (db st) (db (dispatch e rs st))
    \<and> (marks (db st) (db (sendEmails e st)) \<or> rows (db (sendEmails e st)) = [])
    \<and> valid_statuses (db (queueEmails e st)) \<and> valid_statuses (db (worker e r st))
    \<and> valid_statuses (db (dispatch e rs st)) \<and> valid_statuses (db (sendEmails e st))
    \<and> (\<forall>v i. Db (Exec_update v i) \<in> set (effects (queueEmails e st))
          \<longrightarrow> Db (Exec_update v i) \<in> set (effects st))
    \<and> (\<forall>v i. Db (Exec_update v i) \<in> set (effects (sendEmails e st))
          \<longrightarrow> v = ''sent'' \<or> Db (Exec_update v i) \<in> set (effects st))
    \<and> (\<forall>st0. startup e cfg d = Some st0 \<longrightarrow> rows (db st0) = [] \<and> valid_statuses (db st0))"
proof -
  have q: "grows (db st) (db (queueEmails e st))" "valid_statuses (db (queueEmails e st))"
    using queue_loop_grows [OF assms, of e "recipients st"] by (simp_all add: queueEmails_def)
  have w: "marks (db st) (db (worker e r st))" "valid_statuses (db (worker e r st))"
    using assms by (simp_all add: worker_marks worker_valid)
  have dm: "marks (db st) (db (dispatch e rs st))" "valid_statuses (db (dispatch e rs st))"
    using dispatch_marks [OF assms] by simp_all
  have s: "(marks (db st) (db (sendEmails e st)) \<or> rows (db (sendEmails e st)) = [])
      \<and> valid_statuses (db (sendEmails e st))"
  proof (cases "completes e st")
    case True
    have v: "valid_statuses (db (loop_start st))"
      using assms by (simp add: loop_start_def)
    from dispatch_marks [OF v, of e "pending_rows (db st)"] show ?thesis
      by (auto simp add: sendEmails_completes [OF True] db_exec_def delete_all_def loop_start_def
            valid_statuses_def)
  next
    case False
    with assms show ?thesis
      by (simp add: sendEmails_stops [OF False] marks_refl)
  qed
  have uq: "\<forall>v i. Db (Exec_update v i) \<in> set (effects (queueEmails e st))
          \<longrightarrow> Db (Exec_update v i) \<in> set (effects st)"
    by (auto simp add: queueEmails_def dest: queue_loop_updates)
  have us: "\<forall>v i. Db (Exec_update v i) \<in> set (effects (sendEmails e st))
          \<longrightarrow> v = ''sent'' \<or> Db (Exec_update v i) \<in> set (effects st)"
    by (auto dest: sendEmails_updates)
  have su: "\<forall>st0. startup e cfg d = Some st0 \<longrightarrow> rows (db st0) = [] \<and> valid_statuses (db st0)"
    by (auto simp add: startup_def delete_all_def valid_statuses_def split: if_splits)
  from q w dm s uq us su show ?thesis by (intro conjI) blast+
qed

theorem status_pending_to_sent_witness:
  "valid_statuses (db (queueEmails calm loaded))
   \<and> marks (db (queueEmails calm loaded)) (db (worker calm (job 1) (queueEmails calm loaded)))
   \<and> rows (db (queueEmails calm loaded)) = [job 1]
   \<and> rows (db (worker calm (job 1) (queueEmails calm loaded))) = [(job 1)\<lparr>status := ''sent''\<rparr>]
   \<and> grows (db (queueEmails calm loaded)) (db (queueEmails calm (queueEmails calm loaded)))"
proof -
  have v: "valid_statuses (db (queueEmails calm loaded))"
    by (simp add: queue_one loaded_fields valid_statuses_def job_def)
  have r: "rows (db (queueEmails calm loaded)) = [job 1]"
    by (simp add: queue_one loaded_fields)
  have w: "rows (db (worker calm (job 1) (queueEmails calm loaded))) = [(job 1)\<lparr>status := ''sent''\<rparr>]"
    by (simp add: worker_db queue_one loaded_fields update_status_def job_def)
  from status_pending_to_sent [OF v, where e = calm and r = "job 1"] v r w show ?thesis
    by simp
qed

section \<open>Properties of the interleaved run\<close>

lemma filter_update_length:
  "k < length ws \<Longrightarrow>
   length (filter P (ws[k := y])) + (if P (ws ! k) then 1 else 0)
     = length (filter P ws) + (if P y then 1 else 0)"
proof (induction ws arbitrary: k)
  case Nil
  then show ?case by simp
next
  case (Cons w ws)
  then show ?case by (cases k) auto
qed

lemma start_inv: "pool_inv (start ids s f)"
  by (simp add: pool_inv_def start_def)

lemma dispatcher_inv: "pool_inv p \<Longrightarrow> dispatcher_step p = Some p' \<Longrightarrow> pool_inv p'"
  by (auto simp add: pool_inv_def dispatcher_step_def holding_def split: loop_pc.splits list.splits if_splits)

lemma holders_same:
  "k < length ws \<Longrightarrow> holding (ws ! k) = holding y
     \<Longrightarrow> length (filter holding (ws[k := y])) = length (filter holding ws)"
  using filter_update_length [of k ws holding y] by (simp split: if_splits)

lemma holders_release:
  "k < length ws \<Longrightarrow> holding (ws ! k) \<Longrightarrow> \<not> holding y
     \<Longrightarrow> Suc (length (filter holding (ws[k := y]))) = length (filter holding ws)"
  using filter_update_length [of k ws holding y] by simp

lemma worker_inv:
  assumes "pool_inv p" and "worker_step delivered k p = Some p'"
  shows "pool_inv p'"
proof -
  from assms(2) have k: "k < length (workers p)"
    by (simp add: worker_step_def split: if_splits)
  obtain j ph where w: "workers p ! k = (j, ph)" by (cases "workers p ! k")
  show ?thesis
  proof (cases "ph = Releasing")
    case True
    have "Suc (length (filter holding ((workers p)[k := (j, Finishing)]))) = length (filter holding (workers p))"
      by (rule holders_release [OF k]) (simp_all add: w True holding_def)
    with assms w k True show ?thesis
      by (auto simp add: worker_step_def pool_inv_def)
  next
    case False
    have same: "\<And>ph'. holding (j, ph) = holding (j, ph')
        \<Longrightarrow> length (filter holding ((workers p)[k := (j, ph')])) = length (filter holding (workers p))"
      by (rule holders_same [OF k]) (simp add: w)
    from assms w k False show ?thesis
      by (cases ph) (auto simp add: worker_step_def pool_inv_def same holding_def split: if_splits)
  qed
qed

lemma run_inv: "pool_inv p \<Longrightarrow> run delivered sched p = Some p' \<Longrightarrow> pool_inv p'"
proof (induction sched arbitrary: p)
  case Nil
  then show ?case by simp
next
  case (Cons a sched)
  from Cons.prems(2) obtain q where q: "exec1 delivered a p = Some q" and r: "run delivered sched q = Some p'"
    by (auto split: option.splits)
  from q Cons.prems(1) have "pool_inv q"
    by (cases a) (auto simp add: exec1_def intro: dispatcher_inv worker_inv)
  from Cons.IH [OF this r] show ?case .
qed

lemma in_flight_holding: "in_flight p \<le> length (filter holding (workers p))"
proof -
  have "filter (\<lambda>w. snd w = Sending) (workers p) = filter (\<lambda>w. snd w = Sending) (filter holding (workers p))"
    by (auto simp add: holding_def intro: filter_cong)
  then show ?thesis
    unfolding in_flight_def by (metis length_filter_le)
qed

text \<open>
  Claim C5. In every state that the goroutines of a run can reach, under any schedule and
  any outcome of the deliveries, the number of workers inside \<^verbatim>\<open>sendEmail\<close> is at
  most the number of tokens in \<^verbatim>\<open>sem\<close>, which is at most the concurrency of 10.
\<close>

theorem slots_bound:
  assumes "run delivered sched (start ids s f) = Some p"
  shows "in_flight p \<le> concurrency \<and> in_flight p \<le> sem p \<and> sem p \<le> concurrency"
proof -
  have "pool_inv p"
    by (rule run_inv [OF start_inv assms])
  with in_flight_holding [of p] show ?thesis
    by (simp add: pool_inv_def)
qed

lemma fill_run:
  "run all_delivered fill_schedule (start eleven 0 0) =
     Some \<lparr>todo = [11], pc = At_next, sem = 10, wg = 10,
           workers = [(1, Sending), (2, Sending), (3, Sending), (4, Sending), (5, Sending),
                      (6, Sending), (7, Sending), (8, Sending), (9, Sending), (10, Sending)],
           successCell = 0, failureCell = 0\<rparr>"
  by (simp add: fill_schedule_def eleven_def start_def exec1_def dispatcher_step_def concurrency_def
        eval_nat_numeral)

theorem slots_bound_witness:
  "run all_delivered fill_schedule (start eleven 0 0) \<noteq> None
   \<and> in_flight (the (run all_delivered fill_schedule (start eleven 0 0))) = 10
   \<and> in_flight (the (run all_delivered fill_schedule (start eleven 0 0))) \<le> concurrency
   \<and> run all_delivered (fill_schedule @ [Dispatcher, Dispatcher]) (start eleven 0 0) = None"
proof -
  have blocked: "run all_delivered (fill_schedule @ [Dispatcher, Dispatcher]) (start eleven 0 0) = None"
    by (simp add: fill_schedule_def eleven_def start_def exec1_def dispatcher_step_def concurrency_def
          eval_nat_numeral)
  from slots_bound [OF fill_run] fill_run blocked show ?thesis
    by (simp add: in_flight_def)
qed

text \<open>
  The counters are not protected: two workers whose deliveries both succeed can both read
  0 and both write 1, and the run ends with one success counted for two jobs.
\<close>

lemma lost_update:
  "run all_delivered racing_schedule (start [1, 2] 0 0) =
     Some \<lparr>todo = [], pc = Returned, sem = 0, wg = 0, workers = [(1, Gone), (2, Gone)],
           successCell = 1, failureCell = 0\<rparr>"
  by (simp add: racing_schedule_def start_def exec1_def dispatcher_step_def worker_step_def
        concurrency_def all_delivered_def)

section \<open>The rate constants\<close>

text \<open>
  Claim C6, on the code: with the two second pause a worker can make 1800 deliveries an
  hour, ten workers 18000, and \<^verbatim>\<open>emailsPerHour\<close> is 180. The constant is declared
  and never read.
\<close>

theorem rate_contract_violated:
  "hourDuration div emailDelay = 1800
   \<and> concurrency * (hourDuration div emailDelay) = 18000
   \<and> emailsPerHour = 180
   \<and> emailsPerHour < concurrency * 1800"
  by (simp add: hourDuration_def emailDelay_def concurrency_def emailsPerHour_def)

end
